theory Spec2Isabelle
  imports Main "HOL-Library.Sublist"
begin

section \<open>Strings\<close>

text \<open>
  A Go string is modelled by the sequence of its runes (Unicode code points), the view
  that \<^verbatim>\<open>range\<close>, \<^verbatim>\<open>utf8.RuneCountInString\<close>, the \<^verbatim>\<open>regexp\<close> package and the
  padding of \<^verbatim>\<open>fmt\<close> take of a valid UTF-8 string. String literals of the source are
  written \<open>str ''...''\<close>.
\<close>

type_synonym rune = nat
type_synonym gostring = "rune list"

definition str :: "string \<Rightarrow> gostring" where
  "str s = map of_char s"

text \<open>
  A Go string need not be valid UTF-8: the keyword is taken from the command line and
  the texts from the fetched page as they are. A byte that does not decode is a unit of
  its own, as \<^verbatim>\<open>utf8.DecodeRuneInString\<close> reads it with width 1, and is represented by a
  number that is no Unicode scalar value: \<open>bad_byte b\<close> for the byte \<open>b\<close>. \<open>valid_rune\<close>
  tells the scalar values, the code points below \<^verbatim>\<open>U+D800\<close> and from \<^verbatim>\<open>U+E000\<close> to
  \<^verbatim>\<open>U+10FFFF\<close>, from such units, and a string is valid UTF-8 when all its units are scalar
  values. Decoding reads such a unit as the rune \<^verbatim>\<open>U+FFFD\<close>, which is \<open>decode\<close>. Strings
  that are joined meet at unit boundaries, as they do when each is valid UTF-8 or one
  of the two bytes at the joint is ASCII.
\<close>

definition valid_rune :: "rune \<Rightarrow> bool" where
  "valid_rune r \<longleftrightarrow> r < 55296 \<or> (57344 \<le> r \<and> r < 1114112)"

definition bad_byte :: "nat \<Rightarrow> rune" where
  "bad_byte b = 1114112 + b"

definition valid_utf8 :: "gostring \<Rightarrow> bool" where
  "valid_utf8 s = list_all valid_rune s"

definition decode :: "rune \<Rightarrow> rune" where
  "decode r = (if valid_rune r then r else 65533)"

text \<open>\<^verbatim>\<open>utf8.RuneCountInString\<close>: the number of runes.\<close>

definition RuneCountInString :: "gostring \<Rightarrow> nat" where
  "RuneCountInString s = length s"

text \<open>\<^verbatim>\<open>unicode.IsSpace\<close>: the Unicode White_Space property.\<close>

definition IsSpace :: "rune \<Rightarrow> bool" where
  "IsSpace r \<longleftrightarrow>
     (9 \<le> r \<and> r \<le> 13) \<or> r = 32 \<or> r = 133 \<or> r = 160 \<or> r = 5760 \<or>
     (8192 \<le> r \<and> r \<le> 8202) \<or> r = 8232 \<or> r = 8233 \<or> r = 8239 \<or> r = 8287 \<or>
     r = 12288"

text \<open>\<^verbatim>\<open>strings.TrimSpace\<close>: leading and trailing white space removed.\<close>

definition TrimSpace :: "gostring \<Rightarrow> gostring" where
  "TrimSpace s = rev (dropWhile IsSpace (rev (dropWhile IsSpace s)))"

text \<open>
  \<^verbatim>\<open>strings.Fields\<close>: the maximal runs of runes that are not white space, in order.
  The second argument is the field being read.
\<close>

fun fields_from :: "gostring \<Rightarrow> gostring \<Rightarrow> gostring list" where
  "fields_from [] cur = (if cur = [] then [] else [cur])"
| "fields_from (r # rs) cur =
     (if IsSpace r then (if cur = [] then fields_from rs [] else cur # fields_from rs [])
      else fields_from rs (cur @ [r]))"

definition Fields :: "gostring \<Rightarrow> gostring list" where
  "Fields s = fields_from s []"

text \<open>\<^verbatim>\<open>strings.Join\<close>.\<close>

fun Join :: "gostring list \<Rightarrow> gostring \<Rightarrow> gostring" where
  "Join [] sep = []"
| "Join [w] sep = w"
| "Join (w # ws) sep = w @ sep @ Join ws sep"

text \<open>\<^verbatim>\<open>strings.Repeat\<close> of a one-rune string.\<close>

definition Repeat :: "rune \<Rightarrow> nat \<Rightarrow> gostring" where
  "Repeat r n = replicate n r"

section \<open>Width Calculator\<close>

text \<open>
  Modelled from the spec: \<^verbatim>\<open>runewidth.StringWidth\<close> of the package go-runewidth, which
  is not part of the repository. A glyph classified as East-Asian-wide or fullwidth
  counts as 2 columns and every other glyph as 1. The classification is a table of
  Unicode and is taken as the parameter \<open>wide\<close>.
\<close>

definition RuneWidth :: "(rune \<Rightarrow> bool) \<Rightarrow> rune \<Rightarrow> nat" where
  "RuneWidth wide r = (if wide r then 2 else 1)"

definition StringWidth :: "(rune \<Rightarrow> bool) \<Rightarrow> gostring \<Rightarrow> nat" where
  "StringWidth wide s = sum_list (map (RuneWidth wide) s)"

section \<open>Data model\<close>

record commit =
  Repo :: gostring
  RepoURL :: gostring
  Sha1 :: gostring
  CommitURL :: gostring
  Message :: gostring

record QueryResult =
  Commits :: "commit list"
  ResultCount :: gostring
  TotalPages :: gostring


text \<open>A Go \<^verbatim>\<open>error\<close> value, given by the text its \<^verbatim>\<open>Error()\<close> method returns.\<close>

datatype go_error = GoError (Error: gostring)

section \<open>Column widths\<close>

text \<open>
  Each of the three loops keeps the greatest count seen so far, starting from 0.
  Widths are lengths of strings held in memory, far below the range of Go's \<^verbatim>\<open>int\<close>,
  so they are natural numbers here.
\<close>

definition maxRepoWidth :: "(rune \<Rightarrow> bool) \<Rightarrow> commit list \<Rightarrow> nat" where
  "maxRepoWidth wide cs =
     fold (\<lambda>c width. let count = StringWidth wide (Repo c)
                      in if count > width then count else width) cs 0"

definition maxMessageWidth :: "(rune \<Rightarrow> bool) \<Rightarrow> commit list \<Rightarrow> nat" where
  "maxMessageWidth wide cs =
     fold (\<lambda>c width. let count = StringWidth wide (Message c)
                      in if count > width then count else width) cs 0"

definition maxURLWidth :: "commit list \<Rightarrow> nat" where
  "maxURLWidth cs =
     fold (\<lambda>c width. let count = RuneCountInString (CommitURL c)
                      in if count > width then count else width) cs 0"

section \<open>Structured (JSON) Renderer\<close>


section \<open>Document tree\<close>

text \<open>
  The parse tree that \<^verbatim>\<open>goquery.NewDocument\<close> returns is a tree of \<^verbatim>\<open>html.Node\<close>: a
  node has a type (the constant \<^verbatim>\<open>html.TextNode\<close> is 1), its data (the tag name of an
  element, the text of a text node), its attributes and its children.
\<close>

datatype node_type = ErrorNode | TextNode | DocumentNode | ElementNode | CommentNode | DoctypeNode

datatype node =
  Node (nType: node_type) (nData: gostring) (nAttr: "(gostring \<times> gostring) list")
    (nKids: "node list")

text \<open>
  A selected node is a \<^verbatim>\<open>*html.Node\<close>, from which the library reaches the parent and
  the siblings. Here it is the node together with its ancestors and its preceding
  siblings, nearest first.
\<close>

record cursor =
  c_up :: "node list"
  c_prev :: "node list"
  c_node :: node

definition root :: "node \<Rightarrow> cursor" where
  "root doc = \<lparr>c_up = [], c_prev = [], c_node = doc\<rparr>"

subsection \<open>Selectors\<close>

text \<open>
  The selectors of the program are chains of tag names, each with or without a class,
  joined by the descendant combinator: \<^verbatim>\<open>table.table tr\<close> is
  \<open>[TagClass table table, Tag tr]\<close>.
\<close>

datatype compound = Tag gostring | TagClass gostring gostring

text \<open>
  The class test of the selector library: the attribute value is cut at every rune of
  \<^verbatim>\<open>" \t\r\n\f"\<close> and some piece equals the class. The second argument is the piece
  being read.
\<close>

fun class_includes :: "gostring \<Rightarrow> gostring \<Rightarrow> gostring \<Rightarrow> bool" where
  "class_includes val tok [] = (tok \<noteq> [] \<and> tok = val)"
| "class_includes val tok (r # rs) =
     (if r = 32 \<or> r = 9 \<or> r = 13 \<or> r = 10 \<or> r = 12
      then tok = val \<or> class_includes val [] rs
      else class_includes val (tok @ [r]) rs)"

fun matches_compound :: "compound \<Rightarrow> node \<Rightarrow> bool" where
  "matches_compound (Tag t) n \<longleftrightarrow> nType n = ElementNode \<and> nData n = t"
| "matches_compound (TagClass t c) n \<longleftrightarrow>
     nType n = ElementNode \<and> nData n = t \<and>
     list_ex (\<lambda>(k, v). k = str ''class'' \<and> class_includes c [] v) (nAttr n)"

text \<open>
  A chain, given innermost first, matches a node when its first compound matches the
  node and the rest matches along the ancestors.
\<close>

fun sel_matches :: "compound list \<Rightarrow> node list \<Rightarrow> node \<Rightarrow> bool"
  and anc_matches :: "compound list \<Rightarrow> node list \<Rightarrow> bool" where
  "sel_matches [] up n \<longleftrightarrow> False"
| "sel_matches [c] up n \<longleftrightarrow> matches_compound c n"
| "sel_matches (c # c' # cs) up n \<longleftrightarrow> matches_compound c n \<and> anc_matches (c' # cs) up"
| "anc_matches cs [] \<longleftrightarrow> False"
| "anc_matches cs (p # ps) \<longleftrightarrow> sel_matches cs ps p \<or> anc_matches cs ps"

subsection \<open>Traversal\<close>

text \<open>
  \<open>matchAll\<close> lists a node, when it matches, and then the matching nodes below it, in
  document order. \<^verbatim>\<open>Find\<close> runs it on the element children of the node it starts from.
\<close>

fun matchAll :: "compound list \<Rightarrow> node list \<Rightarrow> node list \<Rightarrow> node \<Rightarrow> cursor list"
  and matchAllKids :: "compound list \<Rightarrow> node list \<Rightarrow> node list \<Rightarrow> node list \<Rightarrow> cursor list" where
  "matchAll m up prev (Node t d a ks) =
     (if sel_matches (rev m) up (Node t d a ks)
      then [\<lparr>c_up = up, c_prev = prev, c_node = Node t d a ks\<rparr>] else [])
     @ matchAllKids m (Node t d a ks # up) [] ks"
| "matchAllKids m up prev [] = []"
| "matchAllKids m up prev (k # ks) = matchAll m up prev k @ matchAllKids m up (k # prev) ks"

fun findKids :: "compound list \<Rightarrow> node list \<Rightarrow> node list \<Rightarrow> node list \<Rightarrow> cursor list" where
  "findKids m up prev [] = []"
| "findKids m up prev (k # ks) =
     (if nType k = ElementNode then matchAll m up prev k else [])
     @ findKids m up (k # prev) ks"

definition Find :: "cursor \<Rightarrow> compound list \<Rightarrow> cursor list" where
  "Find s m = findKids m (c_node s # c_up s) [] (nKids (c_node s))"

text \<open>\<^verbatim>\<open>Text\<close>: the data of the text nodes at and below the selected nodes, in order.\<close>

fun text_of :: "node \<Rightarrow> gostring" where
  "text_of (Node t d a ks) = (if t = TextNode then d else []) @ concat (map text_of ks)"

definition Text :: "cursor list \<Rightarrow> gostring" where
  "Text sel = concat (map (\<lambda>s. text_of (c_node s)) sel)"

text \<open>
  \<^verbatim>\<open>Prev\<close>: for each selected node, the nearest preceding sibling that is an element.
  Different nodes have different such siblings, so nothing is selected twice.
\<close>

definition prev_of :: "cursor \<Rightarrow> cursor list" where
  "prev_of s =
     (case dropWhile (\<lambda>p. nType p \<noteq> ElementNode) (c_prev s) of
        [] \<Rightarrow> []
      | p # ps \<Rightarrow> [\<lparr>c_up = c_up s, c_prev = ps, c_node = p\<rparr>])"

definition Prev :: "cursor list \<Rightarrow> cursor list" where
  "Prev sel = concat (map prev_of sel)"

text \<open>\<^verbatim>\<open>Attr\<close>: the value of the first attribute of that name, empty when there is none.\<close>

definition Attr :: "cursor \<Rightarrow> gostring \<Rightarrow> gostring" where
  "Attr s name = (case map_of (nAttr (c_node s)) name of Some v \<Rightarrow> v | None \<Rightarrow> [])"

text \<open>
  A run-time panic of Go. Storing into an array outside its bounds panics with the index
  and the length.
\<close>

datatype panic = IndexOutOfRange nat nat

text \<open>
  \<^verbatim>\<open>Each\<close>: the callback on every selected node with its index, in order, threading
  the variables the callback assigns; a panic in the callback ends the run.
\<close>

fun each_from :: "nat \<Rightarrow> (nat \<Rightarrow> cursor \<Rightarrow> 's \<Rightarrow> panic + 's) \<Rightarrow> cursor list \<Rightarrow> 's \<Rightarrow> panic + 's" where
  "each_from i f [] st = Inr st"
| "each_from i f (s # sel) st =
     (case f i s st of Inl p \<Rightarrow> Inl p | Inr st' \<Rightarrow> each_from (Suc i) f sel st')"

definition Each :: "cursor list \<Rightarrow> (nat \<Rightarrow> cursor \<Rightarrow> 's \<Rightarrow> panic + 's) \<Rightarrow> 's \<Rightarrow> panic + 's" where
  "Each sel f st = each_from 0 f sel st"

section \<open>Regular expressions\<close>

text \<open>
  The part of the \<^verbatim>\<open>regexp\<close> package the program uses: literals, the class \<^verbatim>\<open>\d\<close>,
  concatenation, alternation and \<^verbatim>\<open>+\<close>. A capture group matches what its body matches.
\<close>

datatype regex = Eps | Lit rune | Digit | Seq regex regex | Alt regex regex | Plus regex

text \<open>
  The package returns the leftmost match and, among the matches that start there, the one
  a backtracking engine finds first. \<open>rmatch re s\<close> lists what is left of \<open>s\<close> after each
  way of matching \<open>re\<close> at its start, in the order in which a backtracking engine tries
  them: the first alternative before the second, one more repetition before stopping.
  The text is read unit by unit through \<open>decode\<close>, so a byte of the text that does not
  decode is matched as the rune \<^verbatim>\<open>U+FFFD\<close>.
\<close>

function rmatch :: "regex \<Rightarrow> gostring \<Rightarrow> gostring list" where
  "rmatch Eps s = [s]"
| "rmatch (Lit c) s = (case s of [] \<Rightarrow> [] | x # xs \<Rightarrow> if decode x = c then [xs] else [])"
| "rmatch Digit s =
     (case s of [] \<Rightarrow> [] | x # xs \<Rightarrow> if 48 \<le> decode x \<and> decode x \<le> 57 then [xs] else [])"
| "rmatch (Seq a b) s = concat (map (rmatch b) (rmatch a s))"
| "rmatch (Alt a b) s = rmatch a s @ rmatch b s"
| "rmatch (Plus a) s =
     concat (map (\<lambda>s'. (if length s' < length s then rmatch (Plus a) s' else []) @ [s'])
       (rmatch a s))"
  by pat_completeness auto
termination
  by (relation "inv_image (less_than <*lex*> less_than) (\<lambda>(re, s). (size re, length s))") auto

text \<open>
  The leftmost match in \<open>s\<close>, which follows the text \<open>pre\<close>: the text before the match,
  the match, and the text after it.
\<close>

fun search :: "regex \<Rightarrow> gostring \<Rightarrow> gostring \<Rightarrow> (gostring \<times> gostring \<times> gostring) option" where
  "search re pre [] =
     (case rmatch re [] of [] \<Rightarrow> None | rest # _ \<Rightarrow> Some (pre, [], rest))"
| "search re pre (x # xs) =
     (case rmatch re (x # xs) of
        [] \<Rightarrow> search re (pre @ [x]) xs
      | rest # _ \<Rightarrow> Some (pre, take (length (x # xs) - length rest) (x # xs), rest))"

lemma search_pre_length: "search re pre s = Some (p, m, post) \<Longrightarrow> length pre \<le> length p"
  by (induction s arbitrary: pre) (fastforce split: list.splits)+

text \<open>
  Element 0 of the result of \<^verbatim>\<open>FindStringSubmatch\<close>, the text of the leftmost match;
  \<open>None\<close> when the result is \<^verbatim>\<open>nil\<close>.
\<close>

definition FindStringSubmatch0 :: "regex \<Rightarrow> gostring \<Rightarrow> gostring option" where
  "FindStringSubmatch0 re s = map_option (\<lambda>(pre, m, post). m) (search re [] s)"

text \<open>
  The loop of \<^verbatim>\<open>ReplaceAllStringFunc\<close>, with the library's variables: the end of the
  last match, the position where the next search starts, and the buffer. A match of the
  empty string right after another match is not replaced, and the search always moves
  on by at least one rune.
\<close>

function replaceAll ::
  "regex \<Rightarrow> gostring \<Rightarrow> (gostring \<Rightarrow> gostring) \<Rightarrow> nat \<Rightarrow> nat \<Rightarrow> gostring \<Rightarrow> gostring" where
  "replaceAll re src repl lastMatchEnd searchPos buf =
     (if searchPos \<le> length src then
        (case search re (take searchPos src) (drop searchPos src) of
           None \<Rightarrow> buf @ drop lastMatchEnd src
         | Some (pre, m, post) \<Rightarrow>
             (let a0 = length pre;
                  a1 = a0 + length m;
                  buf1 = buf @ take (a0 - lastMatchEnd) (drop lastMatchEnd src);
                  buf2 = (if a1 > lastMatchEnd \<or> a0 = 0 then buf1 @ repl m else buf1);
                  width = (if searchPos < length src then 1 else 0);
                  searchPos' =
                    (if searchPos + width > a1 then searchPos + width
                     else if searchPos + 1 > a1 then searchPos + 1
                     else a1)
              in replaceAll re src repl a1 searchPos' buf2))
      else buf @ drop lastMatchEnd src)"
  by pat_completeness auto
termination
  apply (relation "measure (\<lambda>(re, src, repl, lastMatchEnd, searchPos, buf). Suc (length src) - searchPos)")
   apply simp
  apply (clarsimp simp: Let_def simp del: search.simps)
  apply (frule search_pre_length)
  apply (simp split: if_splits del: search.simps)
  apply arith
  done

definition ReplaceAllStringFunc :: "regex \<Rightarrow> gostring \<Rightarrow> (gostring \<Rightarrow> gostring) \<Rightarrow> gostring" where
  "ReplaceAllStringFunc re src repl = replaceAll re src repl 0 0 []"

subsection \<open>Quoting and compiling\<close>

text \<open>The bytes \<^verbatim>\<open>regexp.QuoteMeta\<close> escapes: the backslash and \<^verbatim>\<open>.+*?()|[]{}^$\<close>.\<close>

definition special :: "rune \<Rightarrow> bool" where
  "special r \<longleftrightarrow> r = 92 \<or> r \<in> set (str ''.+*?()|[]{}^$'')"

definition QuoteMeta :: "gostring \<Rightarrow> gostring" where
  "QuoteMeta s = concat (map (\<lambda>r. if special r then [92, r] else [r]) s)"

text \<open>
  \<^verbatim>\<open>regexp.MustCompile\<close> on the patterns \<open>highlightWords\<close> builds: runes that stand for
  themselves, a backslash before an ASCII rune that is neither a letter nor a digit,
  which stands for that rune, and the bar between alternatives. The parser reads the
  pattern rune by rune and fails with \<^verbatim>\<open>invalid UTF-8\<close> at a byte that does not decode; a
  backslash at the end is a parse error too. On both \<^verbatim>\<open>MustCompile\<close> panics. Every other
  construct of the pattern language is outside this fragment and reported as such.
\<close>

datatype no_regex = ParseError | InvalidUTF8 | OutsideFragment

datatype token = TLit rune | TBar

definition isalnum :: "rune \<Rightarrow> bool" where
  "isalnum r \<longleftrightarrow> (48 \<le> r \<and> r \<le> 57) \<or> (65 \<le> r \<and> r \<le> 90) \<or> (97 \<le> r \<and> r \<le> 122)"

fun tokens :: "gostring \<Rightarrow> no_regex + token list" where
  "tokens [] = Inr []"
| "tokens (c # cs) =
     (if c = 92 then
        (case cs of
           [] \<Rightarrow> Inl ParseError
         | d # ds \<Rightarrow>
             if \<not> valid_rune d then Inl InvalidUTF8
             else if d < 128 \<and> \<not> isalnum d
             then (case tokens ds of Inl e \<Rightarrow> Inl e | Inr ts \<Rightarrow> Inr (TLit d # ts))
             else Inl OutsideFragment)
      else if c = 124 then
        (case tokens cs of Inl e \<Rightarrow> Inl e | Inr ts \<Rightarrow> Inr (TBar # ts))
      else if special c then Inl OutsideFragment
      else if \<not> valid_rune c then Inl InvalidUTF8
      else (case tokens cs of Inl e \<Rightarrow> Inl e | Inr ts \<Rightarrow> Inr (TLit c # ts)))"

text \<open>The alternatives between the bars; the second argument is the one being read.\<close>

fun alts :: "token list \<Rightarrow> gostring \<Rightarrow> gostring list" where
  "alts [] cur = [cur]"
| "alts (TBar # ts) cur = cur # alts ts []"
| "alts (TLit r # ts) cur = alts ts (cur @ [r])"

definition literal :: "gostring \<Rightarrow> regex" where
  "literal s = foldr (\<lambda>r re. Seq (Lit r) re) s Eps"

fun alternate :: "regex list \<Rightarrow> regex" where
  "alternate [] = Eps"
| "alternate [a] = a"
| "alternate (a # as) = Alt a (alternate as)"

definition MustCompile :: "gostring \<Rightarrow> no_regex + regex" where
  "MustCompile s =
     (case tokens s of Inl e \<Rightarrow> Inl e | Inr ts \<Rightarrow> Inr (alternate (map literal (alts ts []))))"

section \<open>Keyword Highlighter\<close>

definition highlightWords ::
  "(gostring \<Rightarrow> gostring) \<Rightarrow> gostring \<Rightarrow> gostring \<Rightarrow> no_regex + gostring" where
  "highlightWords YellowString message keyword =
     (let words = map QuoteMeta (Fields keyword)
      in case MustCompile (Join words (str ''|'')) of
           Inl e \<Rightarrow> Inl e
         | Inr pattern \<Rightarrow> Inr (ReplaceAllStringFunc pattern message YellowString))"

section \<open>Metadata Extractor\<close>

text \<open>The pattern \<^verbatim>\<open>(\d+) results\<close>.\<close>

definition pattern :: regex where
  "pattern = Seq (Plus Digit) (literal (str '' results''))"

text \<open>
  The loop over the children of one container: the first text node whose data has a
  match sets \<open>results\<close> and ends the loop.
\<close>

fun scan_children :: "node list \<Rightarrow> gostring \<Rightarrow> gostring" where
  "scan_children [] results = results"
| "scan_children (c # cs) results =
     (if nType c = TextNode then
        (case FindStringSubmatch0 pattern (nData c) of
           Some m \<Rightarrow> m
         | None \<Rightarrow> scan_children cs results)
      else scan_children cs results)"

text \<open>The callback runs on every \<^verbatim>\<open>div.container\<close> of the document, one after the other.\<close>

definition getResultCount :: "node \<Rightarrow> gostring" where
  "getResultCount doc =
     fold (\<lambda>s results. scan_children (nKids (c_node s)) results)
       (Find (root doc) [TagClass (str ''div'') (str ''container'')]) []"

definition getTotalPages :: "node \<Rightarrow> gostring" where
  "getTotalPages doc =
     (let pages = Text (Prev (Find (root doc)
            [TagClass (str ''ul'') (str ''pagination''), TagClass (str ''li'') (str ''next_page'')]))
      in if pages = [] then str ''1'' else pages)"

section \<open>Commit Extractor\<close>

text \<open>An assignment to an array element, with the bounds check of the run time.\<close>

definition store :: "gostring list \<Rightarrow> nat \<Rightarrow> gostring \<Rightarrow> panic + gostring list" where
  "store arr i v = (if i < length arr then Inr (arr[i := v]) else Inl (IndexOutOfRange i (length arr)))"

text \<open>The variables of one row that the callbacks assign.\<close>

record row_vars =
  cellsTxt :: "gostring list"
  hrefIndex :: nat
  cellsHref :: "gostring list"

definition on_anchor :: "nat \<Rightarrow> cursor \<Rightarrow> row_vars \<Rightarrow> panic + row_vars" where
  "on_anchor i s v =
     (let href = Attr s (str ''href'')
      in if href \<noteq> [] then
           (case store (cellsHref v) (hrefIndex v) href of
              Inl p \<Rightarrow> Inl p
            | Inr hs \<Rightarrow> Inr (v\<lparr>cellsHref := hs, hrefIndex := hrefIndex v + 1\<rparr>))
         else Inr v)"

definition on_cell :: "nat \<Rightarrow> cursor \<Rightarrow> row_vars \<Rightarrow> panic + row_vars" where
  "on_cell i s v =
     (case store (cellsTxt v) i (Text [s]) of
        Inl p \<Rightarrow> Inl p
      | Inr ts \<Rightarrow> Each (Find s [Tag (str ''a'')]) on_anchor (v\<lparr>cellsTxt := ts\<rparr>))"

definition on_line :: "nat \<Rightarrow> cursor \<Rightarrow> commit list \<Rightarrow> panic + commit list" where
  "on_line i line commits =
     (case Each (Find line [Tag (str ''td'')]) on_cell
             \<lparr>cellsTxt = [[], [], []], hrefIndex = 0, cellsHref = [[], []]\<rparr> of
        Inl p \<Rightarrow> Inl p
      | Inr v \<Rightarrow>
          (let commit = \<lparr>Repo = cellsTxt v ! 1, RepoURL = cellsHref v ! 0,
                         Sha1 = cellsTxt v ! 2, CommitURL = cellsHref v ! 1,
                         Message = TrimSpace (cellsTxt v ! 0)\<rparr>
           in Inr (if Sha1 commit \<noteq> [] then commits @ [commit] else commits)))"

text \<open>
  \<open>crawl\<close> takes what \<^verbatim>\<open>goquery.NewDocument(url)\<close> returned, an error or the document,
  and returns the pair of the source, unless a callback panics.
\<close>

definition crawl :: "go_error + node \<Rightarrow> panic + (QueryResult \<times> go_error option)" where
  "crawl fetched =
     (case fetched of
        Inl err \<Rightarrow> Inr (\<lparr>Commits = [], ResultCount = [], TotalPages = []\<rparr>, Some err)
      | Inr doc \<Rightarrow>
          (case Each (Find (root doc) [TagClass (str ''table'') (str ''table''), Tag (str ''tr'')])
                  on_line [] of
             Inl p \<Rightarrow> Inl p
           | Inr commits \<Rightarrow>
               Inr (\<lparr>Commits = commits, ResultCount = getResultCount doc,
                     TotalPages = getTotalPages doc\<rparr>, None)))"

section \<open>Structured mode\<close>


section \<open>Table Renderer\<close>

text \<open>
  The colour functions decorate a string and are parameters. \<^verbatim>\<open>fmt\<close> pads a string to a
  width counted in runes: \<^verbatim>\<open>%-Ns\<close> on the right, \<^verbatim>\<open>%Ns\<close> on the left.
\<close>

record palette =
  BlueString :: "gostring \<Rightarrow> gostring"
  CyanString :: "gostring \<Rightarrow> gostring"
  YellowString :: "gostring \<Rightarrow> gostring"

definition pad_right :: "nat \<Rightarrow> gostring \<Rightarrow> gostring" where
  "pad_right w s = s @ replicate (w - RuneCountInString s) 32"

definition pad_left :: "nat \<Rightarrow> gostring \<Rightarrow> gostring" where
  "pad_left w s = replicate (w - RuneCountInString s) 32 @ s"

text \<open>\<^verbatim>\<open>%d\<close>: the decimal digits of an integer.\<close>

function decimal :: "nat \<Rightarrow> gostring" where
  "decimal n = (if n < 10 then [48 + n] else decimal (n div 10) @ [48 + n mod 10])"
  by pat_completeness auto
termination
  by (relation "measure id") auto

definition format_int :: "int \<Rightarrow> gostring" where
  "format_int i = (if i < 0 then 45 # decimal (nat (- i)) else decimal (nat i))"

text \<open>
  The loop over the commits: the lines written, and the panic of \<open>highlightWords\<close> that
  ended the loop, if any.
\<close>

fun show_rows :: "(commit \<Rightarrow> no_regex + gostring) \<Rightarrow> commit list \<Rightarrow> gostring list \<times> no_regex option" where
  "show_rows line [] = ([], None)"
| "show_rows line (c # cs) =
     (case line c of
        Inl e \<Rightarrow> ([], Some e)
      | Inr l \<Rightarrow> (let (ls, e) = show_rows line cs in (l # ls, e)))"

text \<open>\<open>showResult\<close> returns what it writes, one string for each call that prints.\<close>

definition showResult ::
  "(rune \<Rightarrow> bool) \<Rightarrow> palette \<Rightarrow> QueryResult \<Rightarrow> gostring \<Rightarrow> gostring \<Rightarrow> int
     \<Rightarrow> gostring list \<times> no_regex option" where
  "showResult wide pal result url keyword page =
     (let commits = Commits result in
      if length commits = 0 then
        ([str ''No Results Found.'' @ [10], str ''  url: '' @ url @ [10, 10]], None)
      else
        (let summary = str ''Search Result : '' @ ResultCount result @ str '' : ''
               @ format_int page @ str ''/'' @ TotalPages result @ str '' pages'' @ [10];
             urlLine = str ''  url: '' @ url @ [10, 10];
             repoWidth = maxRepoWidth wide commits;
             urlWidth = maxURLWidth commits;
             msgWidth = maxMessageWidth wide commits;
             header = str '' '' @ BlueString pal (pad_right repoWidth (str ''Repository''))
               @ str '' | '' @ CyanString pal (pad_right 7 (str ''sha1''))
               @ str '' | '' @ pad_right urlWidth (str ''url'') @ str '' | message '' @ [10];
             separator = Repeat 45 (repoWidth + msgWidth + urlWidth + 18) @ [10];
             (rows, e) = show_rows
               (\<lambda>c. case highlightWords (YellowString pal) (Message c) keyword of
                      Inl e \<Rightarrow> Inl e
                    | Inr h \<Rightarrow>
                        Inr (str '' '' @ BlueString pal (pad_right repoWidth (Repo c))
                          @ str '' | '' @ pad_left 7 (CyanString pal (Sha1 c))
                          @ str '' | '' @ pad_right urlWidth (CommitURL c)
                          @ str '' | '' @ h @ [10]))
               commits
         in ([summary, urlLine, header, separator] @ rows, e)))"

section \<open>The slots of a row\<close>

text \<open>
  What the callbacks meet in a row: the texts of its cells, in order, and the non-empty
  \<^verbatim>\<open>href\<close> values of the anchors in its cells, in order. A slot that was not filled is
  empty. \<open>spec_commit\<close> is the commit of the specification: cell 0 is the message,
  trimmed, cell 1 the repository, cell 2 the hash, the first href the URL of the
  repository and the second the URL of the commit.
\<close>

definition cell_texts :: "cursor \<Rightarrow> gostring list" where
  "cell_texts line = map (\<lambda>s. Text [s]) (Find line [Tag (str ''td'')])"

definition cell_hrefs :: "cursor \<Rightarrow> gostring list" where
  "cell_hrefs s = filter (\<lambda>h. h \<noteq> []) (map (\<lambda>a. Attr a (str ''href'')) (Find s [Tag (str ''a'')]))"

definition row_hrefs :: "cursor \<Rightarrow> gostring list" where
  "row_hrefs line = concat (map cell_hrefs (Find line [Tag (str ''td'')]))"

definition slot :: "gostring list \<Rightarrow> nat \<Rightarrow> gostring" where
  "slot xs i = (if i < length xs then xs ! i else [])"

definition spec_commit :: "cursor \<Rightarrow> commit" where
  "spec_commit line =
     \<lparr>Repo = slot (cell_texts line) 1, RepoURL = slot (row_hrefs line) 0,
      Sha1 = slot (cell_texts line) 2, CommitURL = slot (row_hrefs line) 1,
      Message = TrimSpace (slot (cell_texts line) 0)\<rparr>"

definition within_slots :: "cursor \<Rightarrow> bool" where
  "within_slots line \<longleftrightarrow> length (cell_texts line) \<le> 3 \<and> length (row_hrefs line) \<le> 2"

definition table_rows :: "node \<Rightarrow> cursor list" where
  "table_rows doc = Find (root doc) [TagClass (str ''table'') (str ''table''), Tag (str ''tr'')]"

text \<open>
  The variables of a row after the given cell texts and hrefs were stored, in terms of
  which the loops are described.
\<close>

definition vars_of :: "gostring list \<Rightarrow> gostring list \<Rightarrow> row_vars" where
  "vars_of texts hrefs =
     \<lparr>cellsTxt = texts @ replicate (3 - length texts) [], hrefIndex = length hrefs,
      cellsHref = hrefs @ replicate (2 - length hrefs) []\<rparr>"

section \<open>The result count and the highlighting of the specification\<close>

text \<open>
  The result count of one container in the words of the specification: \<open>count_at\<close> is a
  text of the shape \<^verbatim>\<open><digits> results\<close> at the start of a string and \<open>count_in\<close> the
  leftmost one in a string; \<open>first_count\<close> is that of the first text node, among the
  children of a container, that has one. For several containers, taken in document
  order, \<open>spec_result_count\<close> gives the count of the last container that has one, and
  the empty string when none has.
\<close>

definition is_digit :: "rune \<Rightarrow> bool" where
  "is_digit r \<longleftrightarrow> 48 \<le> r \<and> r \<le> 57"

definition count_at :: "gostring \<Rightarrow> gostring option" where
  "count_at s =
     (let ds = takeWhile is_digit s
      in if ds \<noteq> [] \<and> prefix (str '' results'') (drop (length ds) s)
         then Some (ds @ str '' results'') else None)"

fun count_in :: "gostring \<Rightarrow> gostring option" where
  "count_in [] = None"
| "count_in (x # xs) = (case count_at (x # xs) of Some m \<Rightarrow> Some m | None \<Rightarrow> count_in xs)"

fun first_count :: "node list \<Rightarrow> gostring option" where
  "first_count [] = None"
| "first_count (c # cs) =
     (if nType c = TextNode
      then (case count_in (nData c) of Some m \<Rightarrow> Some m | None \<Rightarrow> first_count cs)
      else first_count cs)"

definition spec_result_count :: "node list \<Rightarrow> gostring" where
  "spec_result_count containers =
     (case List.map_filter (\<lambda>n. first_count (nKids n)) containers of
        [] \<Rightarrow> []
      | m # ms \<Rightarrow> last (m # ms))"

text \<open>
  The highlighting in the words of the specification: scanning the message from the
  left, at each position the first term, in the order of the keyword, that the rest of
  the message starts with is decorated and the scan resumes after it; where no term
  starts, the rune is passed through.
\<close>

function spec_highlight :: "(gostring \<Rightarrow> gostring) \<Rightarrow> gostring list \<Rightarrow> gostring \<Rightarrow> gostring" where
  "spec_highlight dec terms [] = []"
| "spec_highlight dec terms (x # xs) =
     (case find (\<lambda>t. t \<noteq> [] \<and> prefix t (x # xs)) terms of
        Some t \<Rightarrow> dec t @ spec_highlight dec terms (drop (length t) (x # xs))
      | None \<Rightarrow> x # spec_highlight dec terms xs)"
  by pat_completeness auto
termination
  by (relation "measure (\<lambda>(dec, terms, s). length s)") (auto simp: find_Some_iff)

text \<open>The tokens of the terms of a keyword, with a bar between two terms.\<close>

fun bar_tokens :: "gostring list \<Rightarrow> token list" where
  "bar_tokens [] = []"
| "bar_tokens [w] = map TLit w"
| "bar_tokens (w # ws) = map TLit w @ TBar # bar_tokens ws"

text \<open>
  The equations of the loops and of \<^verbatim>\<open>+\<close> rewrite their own right-hand sides and are
  unfolded only where a proof asks for them.
\<close>

declare replaceAll.simps [simp del]
declare decimal.simps [simp del]
declare rmatch.simps(6) [simp del]

section \<open>Notation for example documents\<close>

abbreviation element :: "string \<Rightarrow> (gostring \<times> gostring) list \<Rightarrow> node list \<Rightarrow> node" where
  "element tag attrs kids \<equiv> Node ElementNode (str tag) attrs kids"

abbreviation text_node :: "string \<Rightarrow> node" where
  "text_node s \<equiv> Node TextNode (str s) [] []"

text \<open>The definitions that evaluate the extraction on a given document.\<close>

lemmas eval_defs = crawl_def Each_def Find_def root_def on_line_def on_cell_def on_anchor_def
  store_def Text_def Attr_def getResultCount_def getTotalPages_def Prev_def str_def TrimSpace_def
  IsSpace_def table_rows_def within_slots_def cell_texts_def row_hrefs_def cell_hrefs_def

section \<open>Column widths are maxima\<close>

lemma fold_keep_max:
  "fold (\<lambda>c width. let count = f c in if count > width then count else width) cs (w::nat)
     = Max (set (w # map f cs))"
proof (induction cs arbitrary: w)
  case Nil
  show ?case by simp
next
  case (Cons c cs)
  have "Max (insert (if w < f c then f c else w) (f ` set cs))
          = Max (insert w (insert (f c) (f ` set cs)))"
    by (cases "f ` set cs = {}") (auto simp: max_def)
  with Cons show ?case by (simp add: Let_def)
qed

lemma maxRepoWidth_Max:
  "maxRepoWidth wide cs = Max (set (0 # map (\<lambda>c. StringWidth wide (Repo c)) cs))"
  unfolding maxRepoWidth_def by (rule fold_keep_max)

lemma maxMessageWidth_Max:
  "maxMessageWidth wide cs = Max (set (0 # map (\<lambda>c. StringWidth wide (Message c)) cs))"
  unfolding maxMessageWidth_def by (rule fold_keep_max)

lemma maxURLWidth_Max:
  "maxURLWidth cs = Max (set (0 # map (\<lambda>c. RuneCountInString (CommitURL c)) cs))"
  unfolding maxURLWidth_def by (rule fold_keep_max)

lemma Max_zero_nonempty:
  "cs \<noteq> [] \<Longrightarrow> Max (set ((0::nat) # map f cs)) = Max (set (map f cs))"
  by simp

text \<open>
  C1. Every column width that feeds the table is to be a display width, the width of
  the URL column included. \<open>maxURLWidth\<close> counts runes instead, unlike \<open>maxRepoWidth\<close>
  and \<open>maxMessageWidth\<close>: for one commit whose repository name, message and URL are all
  the text \<^verbatim>\<open>/c/\<close> followed by the wide glyph U+3042, the repository and message widths
  are the display width 5 and the URL width is the rune count 4.
\<close>

theorem maxURLWidth_counts_runes:
  "maxURLWidth [\<lparr>Repo = str ''/c/'' @ [12354], RepoURL = [], Sha1 = str ''abc'',
                  CommitURL = str ''/c/'' @ [12354], Message = str ''/c/'' @ [12354]\<rparr>] = 4 \<and>
   StringWidth (\<lambda>r. r = 12354) (str ''/c/'' @ [12354]) = 5 \<and>
   maxRepoWidth (\<lambda>r. r = 12354)
     [\<lparr>Repo = str ''/c/'' @ [12354], RepoURL = [], Sha1 = str ''abc'',
       CommitURL = str ''/c/'' @ [12354], Message = str ''/c/'' @ [12354]\<rparr>] = 5 \<and>
   maxMessageWidth (\<lambda>r. r = 12354)
     [\<lparr>Repo = str ''/c/'' @ [12354], RepoURL = [], Sha1 = str ''abc'',
       CommitURL = str ''/c/'' @ [12354], Message = str ''/c/'' @ [12354]\<rparr>] = 5"
  by (simp add: maxURLWidth_def maxRepoWidth_def maxMessageWidth_def StringWidth_def
      RuneWidth_def RuneCountInString_def str_def)

section \<open>Table Renderer: the empty result and the separator\<close>

text \<open>
  C9. For a result with no commits the renderer writes the notice and the line of the
  query URL and nothing else.
\<close>

theorem showResult_empty:
  "Commits result = [] \<Longrightarrow>
   showResult wide pal result url keyword page =
     ([str ''No Results Found.'' @ [10], str ''  url: '' @ url @ [10, 10]], None)"
  by (simp add: showResult_def)

theorem showResult_empty_witness:
  "Commits \<lparr>Commits = [], ResultCount = [], TotalPages = str ''1''\<rparr> = [] \<and>
   showResult (\<lambda>r. False) \<lparr>BlueString = id, CyanString = id, YellowString = id\<rparr>
       \<lparr>Commits = [], ResultCount = [], TotalPages = str ''1''\<rparr> (str ''http://u'') (str ''fix'') 1 =
     ([str ''No Results Found.'' @ [10], str ''  url: '' @ str ''http://u'' @ [10, 10]], None)"
  using showResult_empty [of "\<lparr>Commits = [], ResultCount = [], TotalPages = str ''1''\<rparr>"
      "\<lambda>r. False" "\<lparr>BlueString = id, CyanString = id, YellowString = id\<rparr>"
      "str ''http://u''" "str ''fix''" 1]
  by simp

text \<open>
  C8. For a result with commits, the fourth string written is the separator: a line of
  dashes, as many as the sum of the three column widths plus 18, where the widths are
  the maxima over all commits of the display width of the repository name, the display
  width of the message and the rune count of the commit URL.
\<close>

theorem showResult_separator:
  assumes "Commits result \<noteq> []"
  shows "\<exists>summary urlLine header dashes rows.
           fst (showResult wide pal result url keyword page)
             = summary # urlLine # header # (dashes @ [10]) # rows \<and>
           dashes = replicate (length dashes) 45 \<and>
           length dashes =
             Max (set (map (\<lambda>c. StringWidth wide (Repo c)) (Commits result)))
             + Max (set (map (\<lambda>c. StringWidth wide (Message c)) (Commits result)))
             + Max (set (map (\<lambda>c. RuneCountInString (CommitURL c)) (Commits result))) + 18"
proof -
  let ?cs = "Commits result"
  let ?n = "maxRepoWidth wide ?cs + maxMessageWidth wide ?cs + maxURLWidth ?cs + 18"
  have "\<exists>summary urlLine header rows.
          fst (showResult wide pal result url keyword page)
            = summary # urlLine # header # (replicate ?n 45 @ [10]) # rows"
    using assms by (simp add: showResult_def Let_def split_beta Repeat_def)
  moreover have "?n = Max (set (map (\<lambda>c. StringWidth wide (Repo c)) ?cs))
             + Max (set (map (\<lambda>c. StringWidth wide (Message c)) ?cs))
             + Max (set (map (\<lambda>c. RuneCountInString (CommitURL c)) ?cs)) + 18"
    using assms
    by (simp add: maxRepoWidth_Max maxMessageWidth_Max maxURLWidth_Max Max_zero_nonempty)
  ultimately show ?thesis
    by (metis length_replicate)
qed

theorem showResult_separator_witness:
  "Commits \<lparr>Commits = [\<lparr>Repo = [12354], RepoURL = str ''/r'', Sha1 = str ''abc'',
        CommitURL = str ''/c'', Message = str ''fix''\<rparr>], ResultCount = [], TotalPages = str ''1''\<rparr> \<noteq> [] \<and>
   (\<exists>summary urlLine header dashes rows.
      fst (showResult (\<lambda>r. r = 12354) \<lparr>BlueString = id, CyanString = id, YellowString = id\<rparr>
        \<lparr>Commits = [\<lparr>Repo = [12354], RepoURL = str ''/r'', Sha1 = str ''abc'',
        CommitURL = str ''/c'', Message = str ''fix''\<rparr>], ResultCount = [], TotalPages = str ''1''\<rparr>
        (str ''http://u'') (str ''fix'') 1)
        = summary # urlLine # header # (dashes @ [10]) # rows \<and>
      dashes = replicate (length dashes) 45 \<and> length dashes = 2 + 3 + 2 + 18)"
proof -
  let ?r = "\<lparr>Commits = [\<lparr>Repo = [12354], RepoURL = str ''/r'', Sha1 = str ''abc'',
        CommitURL = str ''/c'', Message = str ''fix''\<rparr>], ResultCount = [], TotalPages = str ''1''\<rparr>"
  have h: "Commits ?r \<noteq> []" by simp
  show ?thesis
    using h showResult_separator [OF h, of "\<lambda>r. r = 12354"
        "\<lparr>BlueString = id, CyanString = id, YellowString = id\<rparr>" "str ''http://u''" "str ''fix''" 1]
    by (simp add: StringWidth_def RuneWidth_def RuneCountInString_def str_def)
qed

section \<open>Total pages\<close>




section \<open>Commit Extractor: rows within and beyond their slots\<close>

lemma store_append:
  "store (xs @ replicate (n - length xs) []) (length xs) v =
     (if length xs < n then Inr ((xs @ [v]) @ replicate (n - length (xs @ [v])) [])
      else Inl (IndexOutOfRange (length xs) (length xs)))"
proof (cases "length xs < n")
  case True
  then obtain k where k: "n - length xs = Suc k"
    by (metis Suc_diff_Suc)
  then have "n - Suc (length xs) = k" by simp
  with True k show ?thesis
    by (simp add: store_def list_update_append)
next
  case False
  then show ?thesis by (simp add: store_def)
qed

lemma on_anchor_vars:
  "on_anchor i a (vars_of texts hrefs) =
     (let href = Attr a (str ''href'') in
      if href = [] then Inr (vars_of texts hrefs)
      else if length hrefs < 2 then Inr (vars_of texts (hrefs @ [href]))
      else Inl (IndexOutOfRange (length hrefs) (length hrefs)))"
  using store_append [of hrefs 2 "Attr a (str ''href'')"]
  by (simp add: on_anchor_def vars_of_def Let_def)

lemma each_anchor_within:
  "length (hrefs @ filter (\<lambda>h. h \<noteq> []) (map (\<lambda>a. Attr a (str ''href'')) as)) \<le> 2 \<Longrightarrow>
   each_from i on_anchor as (vars_of texts hrefs) =
     Inr (vars_of texts (hrefs @ filter (\<lambda>h. h \<noteq> []) (map (\<lambda>a. Attr a (str ''href'')) as)))"
proof (induction as arbitrary: i hrefs)
  case Nil
  show ?case by simp
next
  case (Cons a as)
  show ?case
  proof (cases "Attr a (str ''href'') = []")
    case True
    with Cons show ?thesis by (simp add: on_anchor_vars)
  next
    case False
    with Cons.prems have "length hrefs < 2" by simp
    with False Cons.IH [of "hrefs @ [Attr a (str ''href'')]" "Suc i"] Cons.prems
    show ?thesis by (simp add: on_anchor_vars)
  qed
qed

lemma each_anchor_beyond:
  "length hrefs \<le> 2 \<Longrightarrow>
   2 < length (hrefs @ filter (\<lambda>h. h \<noteq> []) (map (\<lambda>a. Attr a (str ''href'')) as)) \<Longrightarrow>
   each_from i on_anchor as (vars_of texts hrefs) = Inl (IndexOutOfRange 2 2)"
proof (induction as arbitrary: i hrefs)
  case Nil
  then show ?case by simp
next
  case (Cons a as)
  show ?case
  proof (cases "Attr a (str ''href'') = []")
    case True
    with Cons show ?thesis by (simp add: on_anchor_vars)
  next
    case False
    show ?thesis
    proof (cases "length hrefs < 2")
      case True
      with False Cons.IH [of "hrefs @ [Attr a (str ''href'')]" "Suc i"] Cons.prems
      show ?thesis by (simp add: on_anchor_vars)
    next
      case False
      with Cons.prems have "length hrefs = 2" by simp
      with \<open>Attr a (str ''href'') \<noteq> []\<close> show ?thesis by (simp add: on_anchor_vars)
    qed
  qed
qed


lemma on_cell_vars:
  "on_cell (length texts) s (vars_of texts hrefs) =
     (if length texts < 3
      then each_from 0 on_anchor (Find s [Tag (str ''a'')]) (vars_of (texts @ [Text [s]]) hrefs)
      else Inl (IndexOutOfRange (length texts) (length texts)))"
  using store_append [of texts 3 "Text [s]"]
  by (simp add: on_cell_def vars_of_def Each_def)

lemma each_cell_within:
  "length texts + length cells \<le> 3 \<Longrightarrow>
   length (hrefs @ concat (map cell_hrefs cells)) \<le> 2 \<Longrightarrow>
   each_from (length texts) on_cell cells (vars_of texts hrefs) =
     Inr (vars_of (texts @ map (\<lambda>s. Text [s]) cells) (hrefs @ concat (map cell_hrefs cells)))"
proof (induction cells arbitrary: texts hrefs)
  case Nil
  show ?case by simp
next
  case (Cons c cells)
  from Cons.prems have lt: "length texts < 3" by simp
  from Cons.prems have h: "length (hrefs @ cell_hrefs c) \<le> 2" by simp
  have step: "on_cell (length texts) c (vars_of texts hrefs) =
      Inr (vars_of (texts @ [Text [c]]) (hrefs @ cell_hrefs c))"
    using lt each_anchor_within [of hrefs "Find c [Tag (str ''a'')]" 0 "texts @ [Text [c]]"] h
    by (simp add: on_cell_vars cell_hrefs_def)
  have "each_from (Suc (length texts)) on_cell cells (vars_of (texts @ [Text [c]]) (hrefs @ cell_hrefs c))
      = Inr (vars_of ((texts @ [Text [c]]) @ map (\<lambda>s. Text [s]) cells)
               ((hrefs @ cell_hrefs c) @ concat (map cell_hrefs cells)))"
    using Cons.IH [of "texts @ [Text [c]]" "hrefs @ cell_hrefs c"] Cons.prems by simp
  with step show ?case by simp
qed

lemma each_cell_beyond:
  "length texts \<le> 3 \<Longrightarrow> length hrefs \<le> 2 \<Longrightarrow>
   3 < length texts + length cells \<or> 2 < length (hrefs @ concat (map cell_hrefs cells)) \<Longrightarrow>
   \<exists>p. each_from (length texts) on_cell cells (vars_of texts hrefs) = Inl p"
proof (induction cells arbitrary: texts hrefs)
  case Nil
  then show ?case by simp
next
  case (Cons c cells)
  show ?case
  proof (cases "length texts < 3")
    case False
    then show ?thesis by (simp add: on_cell_vars)
  next
    case lt: True
    show ?thesis
    proof (cases "length (hrefs @ cell_hrefs c) \<le> 2")
      case False
      then have "each_from 0 on_anchor (Find c [Tag (str ''a'')]) (vars_of (texts @ [Text [c]]) hrefs)
          = Inl (IndexOutOfRange 2 2)"
        using each_anchor_beyond [of hrefs "Find c [Tag (str ''a'')]" 0 "texts @ [Text [c]]"] Cons.prems(2)
        by (simp add: cell_hrefs_def)
      with lt show ?thesis by (simp add: on_cell_vars)
    next
      case h: True
      have step: "on_cell (length texts) c (vars_of texts hrefs) =
          Inr (vars_of (texts @ [Text [c]]) (hrefs @ cell_hrefs c))"
        using lt each_anchor_within [of hrefs "Find c [Tag (str ''a'')]" 0 "texts @ [Text [c]]"] h
        by (simp add: on_cell_vars cell_hrefs_def)
      have "\<exists>p. each_from (length (texts @ [Text [c]])) on_cell cells
                (vars_of (texts @ [Text [c]]) (hrefs @ cell_hrefs c)) = Inl p"
        using Cons.prems lt h by (intro Cons.IH) auto
      with step show ?thesis by simp
    qed
  qed
qed

lemma slot_padded: "i < n \<Longrightarrow> (xs @ replicate (n - length xs) []) ! i = slot xs i"
  by (simp add: slot_def nth_append)

lemma vars_of_empty:
  "\<lparr>cellsTxt = [[], [], []], hrefIndex = 0, cellsHref = [[], []]\<rparr> = vars_of [] []"
  by (simp add: vars_of_def numeral_3_eq_3 numeral_2_eq_2)

lemma on_line_within:
  assumes "within_slots line"
  shows "on_line i line commits =
           Inr (if Sha1 (spec_commit line) \<noteq> [] then commits @ [spec_commit line] else commits)"
proof -
  let ?cells = "Find line [Tag (str ''td'')]"
  from assms have "each_from (length ([]::gostring list)) on_cell ?cells (vars_of [] []) =
      Inr (vars_of ([] @ map (\<lambda>s. Text [s]) ?cells) ([] @ concat (map cell_hrefs ?cells)))"
    by (intro each_cell_within) (simp_all add: within_slots_def cell_texts_def row_hrefs_def)
  then have "Each ?cells on_cell \<lparr>cellsTxt = [[], [], []], hrefIndex = 0, cellsHref = [[], []]\<rparr>
      = Inr (vars_of (cell_texts line) (row_hrefs line))"
    by (simp add: Each_def vars_of_empty cell_texts_def row_hrefs_def)
  then show ?thesis
    by (simp add: on_line_def Let_def spec_commit_def vars_of_def slot_padded)
qed

lemma on_line_beyond:
  assumes "\<not> within_slots line"
  shows "\<exists>p. on_line i line commits = Inl p"
proof -
  let ?cells = "Find line [Tag (str ''td'')]"
  from assms have "\<exists>p. each_from (length ([]::gostring list)) on_cell ?cells (vars_of [] []) = Inl p"
    by (intro each_cell_beyond) (auto simp: within_slots_def cell_texts_def row_hrefs_def)
  then obtain p where
    "Each ?cells on_cell \<lparr>cellsTxt = [[], [], []], hrefIndex = 0, cellsHref = [[], []]\<rparr> = Inl p"
    by (auto simp: Each_def vars_of_empty)
  then show ?thesis
    by (simp add: on_line_def)
qed

lemma each_line_within:
  "\<forall>line \<in> set rows. within_slots line \<Longrightarrow>
   each_from i on_line rows commits =
     Inr (commits @ map spec_commit (filter (\<lambda>line. Sha1 (spec_commit line) \<noteq> []) rows))"
  by (induction rows arbitrary: i commits) (simp_all add: on_line_within)

lemma each_line_beyond:
  "\<exists>line \<in> set rows. \<not> within_slots line \<Longrightarrow> \<exists>p. each_from i on_line rows commits = Inl p"
proof (induction rows arbitrary: i commits)
  case Nil
  then show ?case by simp
next
  case (Cons r rows)
  show ?case
  proof (cases "within_slots r")
    case True
    with Cons.prems have "\<exists>line \<in> set rows. \<not> within_slots line" by simp
    from Cons.IH [OF this] True show ?thesis by (simp add: on_line_within)
  next
    case False
    from on_line_beyond [OF this] obtain p where "on_line i r commits = Inl p" by blast
    then show ?thesis by simp
  qed
qed

text \<open>
  C2, as amended. When every row of the table has at most 3 cells and at most 2 non-empty
  hrefs, the extraction returns without error, and its commits are those of the rows
  whose hash cell has a non-empty text, in document order; the text is compared as it
  is, not trimmed. Every other row is skipped.
\<close>

theorem crawl_accepts_rows:
  assumes "\<forall>line \<in> set (table_rows doc). within_slots line"
  shows "\<exists>qr. crawl (Inr doc) = Inr (qr, None) \<and>
           Commits qr = map spec_commit
             (filter (\<lambda>line. slot (cell_texts line) 2 \<noteq> []) (table_rows doc))"
  using each_line_within [OF assms, of 0 "[]"]
  by (simp add: crawl_def Each_def table_rows_def spec_commit_def)

theorem crawl_accepts_rows_witness:
  "list_all within_slots (table_rows (Node DocumentNode [] []
     [element ''table'' [(str ''class'', str ''table'')]
       [element ''tr'' [] [element ''th'' [] [text_node ''message'']],
        element ''tr'' []
          [element ''td'' [] [text_node '' fix bug ''],
           element ''td'' [] [element ''a'' [(str ''href'', str ''/r'')] [text_node ''repo'']],
           element ''td'' [] [element ''a'' [(str ''href'', str ''/c'')] [text_node ''abc'']]],
        element ''tr'' []
          [element ''td'' [] [text_node ''wip''],
           element ''td'' [] [element ''a'' [(str ''href'', str ''/r'')] [text_node ''repo'']],
           element ''td'' [] []]]])) \<and>
   crawl (Inr (Node DocumentNode [] []
     [element ''table'' [(str ''class'', str ''table'')]
       [element ''tr'' [] [element ''th'' [] [text_node ''message'']],
        element ''tr'' []
          [element ''td'' [] [text_node '' fix bug ''],
           element ''td'' [] [element ''a'' [(str ''href'', str ''/r'')] [text_node ''repo'']],
           element ''td'' [] [element ''a'' [(str ''href'', str ''/c'')] [text_node ''abc'']]],
        element ''tr'' []
          [element ''td'' [] [text_node ''wip''],
           element ''td'' [] [element ''a'' [(str ''href'', str ''/r'')] [text_node ''repo'']],
           element ''td'' [] []]]])) =
     Inr (\<lparr>Commits = [\<lparr>Repo = str ''repo'', RepoURL = str ''/r'', Sha1 = str ''abc'',
                        CommitURL = str ''/c'', Message = str ''fix bug''\<rparr>],
           ResultCount = [], TotalPages = str ''1''\<rparr>, None)"
  using crawl_accepts_rows [of "Node DocumentNode [] []
     [element ''table'' [(str ''class'', str ''table'')]
       [element ''tr'' [] [element ''th'' [] [text_node ''message'']],
        element ''tr'' []
          [element ''td'' [] [text_node '' fix bug ''],
           element ''td'' [] [element ''a'' [(str ''href'', str ''/r'')] [text_node ''repo'']],
           element ''td'' [] [element ''a'' [(str ''href'', str ''/c'')] [text_node ''abc'']]],
        element ''tr'' []
          [element ''td'' [] [text_node ''wip''],
           element ''td'' [] [element ''a'' [(str ''href'', str ''/r'')] [text_node ''repo'']],
           element ''td'' [] []]]]"]
  by (simp add: eval_defs)

text \<open>
  C2, the claim as stated: a row whose hash cell holds one space, which is empty after
  trimming, is accepted.
\<close>

theorem crawl_accepts_blank_sha1:
  "TrimSpace (str '' '') = [] \<and>
   crawl (Inr (Node DocumentNode [] []
     [element ''table'' [(str ''class'', str ''table'')]
       [element ''tr'' []
          [element ''td'' [] [text_node ''wip''],
           element ''td'' [] [element ''a'' [(str ''href'', str ''/r'')] [text_node ''repo'']],
           element ''td'' [] [text_node '' '']]]])) =
     Inr (\<lparr>Commits = [\<lparr>Repo = str ''repo'', RepoURL = str ''/r'', Sha1 = str '' '',
                        CommitURL = [], Message = str ''wip''\<rparr>],
           ResultCount = [], TotalPages = str ''1''\<rparr>, None)"
  by (simp add: eval_defs)

text \<open>
  C4. A row is to be processed without indexing out of range, also with more than 3
  cells or more than 2 hrefs. The code stores cell \<open>i\<close> into an array of 3 and href
  \<open>hrefIndex\<close> into an array of 2: whenever some row of the table has more than 3 cells
  or more than 2 non-empty hrefs, the extraction panics.
\<close>

theorem crawl_panics_beyond_slots:
  assumes "\<exists>line \<in> set (table_rows doc). \<not> within_slots line"
  shows "\<exists>p. crawl (Inr doc) = Inl p"
  using each_line_beyond [OF assms, of 0 "[]"]
  by (auto simp: crawl_def Each_def table_rows_def)


theorem crawl_panics_beyond_slots_witness:
  "list_ex (\<lambda>line. \<not> within_slots line) (table_rows (Node DocumentNode [] []
     [element ''table'' [(str ''class'', str ''table'')]
       [element ''tr'' []
          [element ''td'' [] [text_node ''fix bug''],
           element ''td'' [] [element ''a'' [(str ''href'', str ''/r'')] [text_node ''repo'']],
           element ''td'' [] [element ''a'' [(str ''href'', str ''/c'')] [text_node ''abc'']],
           element ''td'' [] [text_node ''today'']]]])) \<and>
   crawl (Inr (Node DocumentNode [] []
     [element ''table'' [(str ''class'', str ''table'')]
       [element ''tr'' []
          [element ''td'' [] [text_node ''fix bug''],
           element ''td'' [] [element ''a'' [(str ''href'', str ''/r'')] [text_node ''repo'']],
           element ''td'' [] [element ''a'' [(str ''href'', str ''/c'')] [text_node ''abc'']],
           element ''td'' [] [text_node ''today'']]]])) = Inl (IndexOutOfRange 3 3)"
  using crawl_panics_beyond_slots [of "Node DocumentNode [] []
     [element ''table'' [(str ''class'', str ''table'')]
       [element ''tr'' []
          [element ''td'' [] [text_node ''fix bug''],
           element ''td'' [] [element ''a'' [(str ''href'', str ''/r'')] [text_node ''repo'']],
           element ''td'' [] [element ''a'' [(str ''href'', str ''/c'')] [text_node ''abc'']],
           element ''td'' [] [text_node ''today'']]]]"]
  by (simp add: eval_defs)

text \<open>
  C10. A row with fewer than 3 cells or fewer than 2 hrefs is to leave the missing
  fields empty rather than fail. A row with no href and 4 cells, and a row with one cell
  and 3 hrefs, make the extraction panic.
\<close>

theorem crawl_sparse_row_panics:
  "crawl (Inr (Node DocumentNode [] []
     [element ''table'' [(str ''class'', str ''table'')]
       [element ''tr'' []
          [element ''td'' [] [text_node ''fix bug''],
           element ''td'' [] [text_node ''repo''],
           element ''td'' [] [text_node ''abc''],
           element ''td'' [] [text_node ''today'']]]])) = Inl (IndexOutOfRange 3 3) \<and>
   crawl (Inr (Node DocumentNode [] []
     [element ''table'' [(str ''class'', str ''table'')]
       [element ''tr'' []
          [element ''td'' []
             [element ''a'' [(str ''href'', str ''/r'')] [text_node ''repo''],
              element ''a'' [(str ''href'', str ''/c'')] [text_node ''abc''],
              element ''a'' [(str ''href'', str ''/d'')] [text_node ''diff'']]]]])) =
     Inl (IndexOutOfRange 2 2)"
  by (simp add: eval_defs)

section \<open>Structured (JSON) Renderer\<close>




section \<open>Metadata Extractor: the result count\<close>

lemma decode_eq: "valid_rune c \<Longrightarrow> valid_rune x \<or> c \<noteq> 65533 \<Longrightarrow> decode x = c \<longleftrightarrow> x = c"
  by (auto simp: decode_def)

lemma decode_digit: "48 \<le> decode x \<and> decode x \<le> 57 \<longleftrightarrow> is_digit x"
  by (auto simp: decode_def valid_rune_def is_digit_def)

lemma rmatch_literal:
  "valid_utf8 w \<Longrightarrow> valid_utf8 s \<or> 65533 \<notin> set w \<Longrightarrow>
   rmatch (literal w) s = (if prefix w s then [drop (length w) s] else [])"
proof (induction w arbitrary: s)
  case Nil
  show ?case by (simp add: literal_def)
next
  case (Cons r w)
  have l: "literal (r # w) = Seq (Lit r) (literal w)" by (simp add: literal_def)
  show ?case
  proof (cases s)
    case Nil
    then show ?thesis by (simp add: l)
  next
    case (Cons x xs)
    from Cons.prems Cons have "decode x = r \<longleftrightarrow> x = r"
      by (intro decode_eq) (auto simp: valid_utf8_def)
    moreover from Cons.prems Cons
    have "rmatch (literal w) xs = (if prefix w xs then [drop (length w) xs] else [])"
      by (intro Cons.IH) (auto simp: valid_utf8_def)
    ultimately show ?thesis using Cons by (simp add: l)
  qed
qed

lemma rmatch_results:
  "rmatch (literal (str '' results'')) s =
     (if prefix (str '' results'') s then [drop (length (str '' results'')) s] else [])"
  by (rule rmatch_literal) (simp_all add: valid_utf8_def valid_rune_def str_def)

lemma rmatch_plus_digit_Nil: "rmatch (Plus Digit) [] = []"
  by (simp add: rmatch.simps(6))

lemma rmatch_plus_digit_Cons:
  "rmatch (Plus Digit) (x # xs) = (if is_digit x then rmatch (Plus Digit) xs @ [xs] else [])"
  by (simp add: decode_digit rmatch.simps(6))

lemma count_at_Nil: "count_at [] = None"
  by (simp add: count_at_def)

lemma count_at_nondigit: "\<not> is_digit x \<Longrightarrow> count_at (x # xs) = None"
  by (simp add: count_at_def)

lemma results_nondigit: "is_digit y \<Longrightarrow> \<not> prefix (str '' results'') (y # ys)"
  by (auto simp: str_def is_digit_def)

lemma count_at_digit:
  "is_digit x \<Longrightarrow> count_at (x # xs) =
     (case xs of
        [] \<Rightarrow> None
      | y # ys \<Rightarrow> if is_digit y then map_option ((#) x) (count_at xs)
                  else if prefix (str '' results'') xs then Some (x # str '' results'') else None)"
  by (auto simp: count_at_def Let_def results_nondigit str_def split: list.splits)

lemma rmatch_pattern:
  "rmatch pattern s = (case count_at s of Some m \<Rightarrow> [drop (length m) s] | None \<Rightarrow> [])"
proof -
  let ?L = "literal (str '' results'')"
  have "concat (map (rmatch ?L) (rmatch (Plus Digit) s))
      = (case count_at s of Some m \<Rightarrow> [drop (length m) s] | None \<Rightarrow> [])"
  proof (induction s)
    case Nil
    show ?case by (simp add: count_at_Nil rmatch_plus_digit_Nil)
  next
    case (Cons x xs)
    show ?case
    proof (cases "is_digit x")
      case False
      then show ?thesis by (simp add: rmatch_plus_digit_Cons count_at_nondigit)
    next
      case True
      show ?thesis
      proof (cases xs)
        case Nil
        have "rmatch (literal (str '' results'')) [] = []"
          unfolding rmatch_results by (simp add: str_def)
        with Nil True show ?thesis
          by (simp add: rmatch_plus_digit_Cons rmatch_plus_digit_Nil count_at_digit)
      next
        case (Cons y ys)
        show ?thesis
        proof (cases "is_digit y")
          case dy: True
          with True Cons Cons.IH show ?thesis
            by (simp add: rmatch_plus_digit_Cons count_at_digit rmatch_results results_nondigit
                split: option.splits)
        next
          case False
          with True Cons Cons.IH show ?thesis
            by (simp add: rmatch_plus_digit_Cons count_at_digit count_at_nondigit rmatch_results)
        qed
      qed
    qed
  qed
  then show ?thesis by (simp add: pattern_def)
qed

lemma count_at_prefix: "count_at s = Some m \<Longrightarrow> prefix m s"
  by (auto simp: count_at_def Let_def prefix_def split: if_splits)
     (metis append.assoc takeWhile_dropWhile_id dropWhile_eq_drop)

lemma search_pattern:
  "map_option (\<lambda>(pre, m, post). m) (search pattern pre s) = count_in s"
proof (induction s arbitrary: pre)
  case Nil
  show ?case by (simp add: rmatch_pattern count_at_Nil)
next
  case (Cons x xs)
  show ?case
  proof (cases "count_at (x # xs)")
    case None
    with Cons show ?thesis by (simp add: rmatch_pattern)
  next
    case (Some m)
    from count_at_prefix [OF Some] obtain r where "x # xs = m @ r"
      by (auto simp: prefix_def)
    then have "take (length (x # xs) - length (drop (length m) (x # xs))) (x # xs) = m"
      by (metis append_eq_conv_conj diff_diff_cancel length_drop length_append le_add1 
          append_take_drop_id)
    with Some show ?thesis by (simp add: rmatch_pattern del: take.simps drop.simps)
  qed
qed


lemma FindStringSubmatch0_pattern: "FindStringSubmatch0 pattern s = count_in s"
  by (simp add: FindStringSubmatch0_def search_pattern)

lemma scan_children_first_count:
  "scan_children cs results = (case first_count cs of Some m \<Rightarrow> m | None \<Rightarrow> results)"
  by (induction cs) (simp_all add: FindStringSubmatch0_pattern split: option.splits)

lemma fold_last_some:
  "fold (\<lambda>x r. case f x of Some m \<Rightarrow> m | None \<Rightarrow> r) xs r0 =
     (case List.map_filter f xs of [] \<Rightarrow> r0 | m # ms \<Rightarrow> last (m # ms))"
proof (induction xs arbitrary: r0)
  case Nil
  show ?case by (simp add: List.map_filter_simps)
next
  case (Cons x xs)
  show ?case
    by (cases "f x") (auto simp: Cons List.map_filter_simps split: list.splits)
qed

lemma map_filter_map: "List.map_filter f (map g xs) = List.map_filter (\<lambda>x. f (g x)) xs"
  by (induction xs) (simp_all add: List.map_filter_simps split: option.splits)

text \<open>
  C7, as amended. The result count is found among the text-node children of the
  \<^verbatim>\<open>div.container\<close> elements, not in nested elements: in a container the first text node
  with a text of the shape \<^verbatim>\<open><digits> results\<close> gives the leftmost such text in full; the
  last container that has one decides, and the result is empty when there is no
  container or no such text node.
\<close>

theorem getResultCount_scan:
  "getResultCount doc =
     spec_result_count (map c_node (Find (root doc) [TagClass (str ''div'') (str ''container'')]))"
  by (simp add: getResultCount_def spec_result_count_def scan_children_first_count fold_last_some
      map_filter_map)

text \<open>
  C7, the claim as stated: with two containers the count returned is that of the second,
  not the first match.
\<close>

theorem getResultCount_last_container:
  "getResultCount (Node DocumentNode [] []
     [element ''div'' [(str ''class'', str ''container'')]
        [element ''b'' [] [text_node ''9 results''], text_node ''Found 1 results''],
      element ''div'' [(str ''class'', str ''container'')]
        [text_node ''about 2 results'']]) = str ''2 results''"
  by (simp add: getResultCount_def scan_children_first_count fold_last_some map_filter_map
      List.map_filter_simps count_at_def is_digit_def Find_def root_def str_def)


section \<open>Keyword Highlighter\<close>

lemma special_punct: "special r \<Longrightarrow> r < 128 \<and> \<not> isalnum r"
  by (auto simp: special_def isalnum_def str_def)

lemma special_bar: "special 124" and special_backslash: "special 92"
  by (simp_all add: special_def str_def)

lemma special_valid: "special r \<Longrightarrow> valid_rune r"
  by (auto simp: special_def valid_rune_def str_def)

lemma IsSpace_valid: "IsSpace r \<Longrightarrow> valid_rune r"
  by (auto simp: IsSpace_def valid_rune_def)

lemma QuoteMeta_Cons:
  "QuoteMeta (r # w) = (if special r then [92, r] else [r]) @ QuoteMeta w"
  by (simp add: QuoteMeta_def)

lemma tokens_QuoteMeta:
  "valid_utf8 w \<Longrightarrow>
   tokens (QuoteMeta w @ rest) =
     (case tokens rest of Inl e \<Rightarrow> Inl e | Inr ts \<Rightarrow> Inr (map TLit w @ ts))"
proof (induction w)
  case Nil
  show ?case by (simp add: QuoteMeta_def split: sum.splits)
next
  case (Cons r w)
  then have v: "valid_rune r" and ih: "tokens (QuoteMeta w @ rest) =
     (case tokens rest of Inl e \<Rightarrow> Inl e | Inr ts \<Rightarrow> Inr (map TLit w @ ts))"
    by (simp_all add: valid_utf8_def)
  show ?case
  proof (cases "special r")
    case True
    with special_punct [OF True] v ih show ?thesis
      by (simp add: QuoteMeta_Cons split: sum.splits)
  next
    case False
    then have "r \<noteq> 92" "r \<noteq> 124"
      using special_bar special_backslash by auto
    with False v ih show ?thesis
      by (simp add: QuoteMeta_Cons split: sum.splits)
  qed
qed

lemma tokens_QuoteMeta_invalid:
  "\<not> valid_utf8 w \<Longrightarrow> tokens (QuoteMeta w @ rest) = Inl InvalidUTF8"
proof (induction w)
  case Nil
  then show ?case by (simp add: valid_utf8_def)
next
  case (Cons r w)
  show ?case
  proof (cases "valid_rune r")
    case False
    then have "\<not> special r" using special_valid by blast
    moreover from this have "r \<noteq> 92" "r \<noteq> 124"
      using special_bar special_backslash by auto
    ultimately show ?thesis using False
      by (simp add: QuoteMeta_Cons)
  next
    case v: True
    with Cons have ih: "tokens (QuoteMeta w @ rest) = Inl InvalidUTF8"
      by (simp add: valid_utf8_def)
    show ?thesis
    proof (cases "special r")
      case True
      with special_punct [OF True] v ih show ?thesis
        by (simp add: QuoteMeta_Cons)
    next
      case False
      then have "r \<noteq> 92" "r \<noteq> 124"
        using special_bar special_backslash by auto
      with False v ih show ?thesis
        by (simp add: QuoteMeta_Cons)
    qed
  qed
qed

lemma tokens_Join:
  "\<forall>w \<in> set ws. valid_utf8 w \<Longrightarrow>
   tokens (Join (map QuoteMeta ws) (str ''|'')) = Inr (bar_tokens ws)"
proof (induction ws rule: bar_tokens.induct)
  case 1
  show ?case by simp
next
  case (2 w)
  then show ?case using tokens_QuoteMeta [of w "[]"] by simp
next
  case (3 w v ws)
  then have "tokens (QuoteMeta w @ 124 # Join (map QuoteMeta (v # ws)) (str ''|''))
      = Inr (map TLit w @ TBar # bar_tokens (v # ws))"
    by (simp add: tokens_QuoteMeta del: Join.simps bar_tokens.simps)
  then show ?case by (simp add: str_def)
qed

lemma tokens_Join_invalid:
  "\<exists>w \<in> set ws. \<not> valid_utf8 w \<Longrightarrow>
   tokens (Join (map QuoteMeta ws) (str ''|'')) = Inl InvalidUTF8"
proof (induction ws rule: bar_tokens.induct)
  case 1
  then show ?case by simp
next
  case (2 w)
  then show ?case using tokens_QuoteMeta_invalid [of w "[]"] by simp
next
  case (3 w v ws)
  have j: "Join (map QuoteMeta (w # v # ws)) (str ''|'')
      = QuoteMeta w @ 124 # Join (map QuoteMeta (v # ws)) (str ''|'')"
    by (simp add: str_def)
  show ?case
  proof (cases "valid_utf8 w")
    case False
    then show ?thesis unfolding j by (rule tokens_QuoteMeta_invalid)
  next
    case True
    with 3 have "tokens (Join (map QuoteMeta (v # ws)) (str ''|'')) = Inl InvalidUTF8"
      by simp
    with True show ?thesis unfolding j
      by (simp add: tokens_QuoteMeta del: Join.simps)
  qed
qed

lemma alts_lits: "alts (map TLit w @ ts) cur = alts ts (cur @ w)"
  by (induction w arbitrary: cur) simp_all

lemma alts_bar_tokens: "ws \<noteq> [] \<Longrightarrow> alts (bar_tokens ws) [] = ws"
proof (induction ws rule: bar_tokens.induct)
  case 1
  then show ?case by simp
next
  case (2 w)
  show ?case using alts_lits [of w "[]" "[]"] by simp
next
  case (3 w v ws)
  then show ?case using alts_lits [of w "TBar # bar_tokens (v # ws)" "[]"] by simp
qed

lemma MustCompile_quoted:
  "ws \<noteq> [] \<Longrightarrow> \<forall>w \<in> set ws. valid_utf8 w \<Longrightarrow>
   MustCompile (Join (map QuoteMeta ws) (str ''|'')) = Inr (alternate (map literal ws))"
  by (simp add: MustCompile_def tokens_Join alts_bar_tokens)

lemma MustCompile_invalid:
  "\<exists>w \<in> set ws. \<not> valid_utf8 w \<Longrightarrow>
   MustCompile (Join (map QuoteMeta ws) (str ''|'')) = Inl InvalidUTF8"
  by (simp add: MustCompile_def tokens_Join_invalid)

lemma valid_utf8_Cons: "valid_utf8 (x # xs) \<Longrightarrow> valid_utf8 xs"
  by (simp add: valid_utf8_def)

lemma valid_utf8_drop: "valid_utf8 s \<Longrightarrow> valid_utf8 (drop n s)"
  by (auto simp: valid_utf8_def list_all_iff dest: in_set_dropD)

lemma rmatch_alternate:
  "ws \<noteq> [] \<Longrightarrow> \<forall>w \<in> set ws. valid_utf8 w \<Longrightarrow>
   valid_utf8 s \<or> (\<forall>w \<in> set ws. 65533 \<notin> set w) \<Longrightarrow>
   rmatch (alternate (map literal ws)) s = map (\<lambda>w. drop (length w) s) (filter (\<lambda>w. prefix w s) ws)"
proof (induction ws rule: bar_tokens.induct)
  case 1
  then show ?case by simp
next
  case (2 w)
  then have "rmatch (literal w) s = (if prefix w s then [drop (length w) s] else [])"
    by (intro rmatch_literal) auto
  then show ?case by simp
next
  case (3 w v ws)
  then have "rmatch (literal w) s = (if prefix w s then [drop (length w) s] else [])"
    by (intro rmatch_literal) auto
  moreover from 3 have "rmatch (alternate (map literal (v # ws))) s
      = map (\<lambda>w. drop (length w) s) (filter (\<lambda>w. prefix w s) (v # ws))"
    by (intro "3.IH") auto
  ultimately show ?case by simp
qed


lemma filter_prefix_None:
  "[] \<notin> set ws \<Longrightarrow> find (\<lambda>t. t \<noteq> [] \<and> prefix t s) ws = None \<Longrightarrow>
   filter (\<lambda>w. prefix w s) ws = []"
  by (induction ws) (auto split: if_splits)

lemma filter_prefix_Some:
  "[] \<notin> set ws \<Longrightarrow> find (\<lambda>t. t \<noteq> [] \<and> prefix t s) ws = Some t \<Longrightarrow>
   \<exists>rest. filter (\<lambda>w. prefix w s) ws = t # rest"
  by (induction ws) (auto split: if_splits)

lemma find_prefix: "find (\<lambda>t. t \<noteq> [] \<and> prefix t s) ws = Some t \<Longrightarrow> t \<noteq> [] \<and> prefix t s"
  by (auto simp: find_Some_iff)

lemma search_alternate_Nil:
  "ws \<noteq> [] \<Longrightarrow> [] \<notin> set ws \<Longrightarrow> \<forall>w \<in> set ws. valid_utf8 w \<Longrightarrow>
   search (alternate (map literal ws)) pre [] = None"
proof -
  assume ws: "ws \<noteq> []" "[] \<notin> set ws" and v: "\<forall>w \<in> set ws. valid_utf8 w"
  from ws(2) have "filter (\<lambda>w. w = []) ws = []"
    by (induction ws) auto
  moreover from ws(1) v have "rmatch (alternate (map literal ws)) []
      = map (\<lambda>w. drop (length w) []) (filter (\<lambda>w. prefix w []) ws)"
    by (intro rmatch_alternate) (simp_all add: valid_utf8_def)
  ultimately show ?thesis by simp
qed

lemma search_alternate_Cons:
  assumes "ws \<noteq> []" "[] \<notin> set ws" "\<forall>w \<in> set ws. valid_utf8 w"
    and "valid_utf8 (x # xs) \<or> (\<forall>w \<in> set ws. 65533 \<notin> set w)"
  shows "search (alternate (map literal ws)) pre (x # xs) =
     (case find (\<lambda>t. t \<noteq> [] \<and> prefix t (x # xs)) ws of
        Some t \<Rightarrow> Some (pre, t, drop (length t) (x # xs))
      | None \<Rightarrow> search (alternate (map literal ws)) (pre @ [x]) xs)"
proof (cases "find (\<lambda>t. t \<noteq> [] \<and> prefix t (x # xs)) ws")
  case None
  with assms filter_prefix_None [OF assms(2) None] show ?thesis
    by (simp add: rmatch_alternate [OF assms(1,3,4)] del: find.simps)
next
  case (Some t)
  from find_prefix [OF Some] obtain r where r: "x # xs = t @ r"
    by (auto simp: prefix_def)
  have "take (length (x # xs) - length (drop (length t) (x # xs))) (x # xs) = t"
    unfolding r by simp
  moreover from filter_prefix_Some [OF assms(2) Some]
  obtain rest where "filter (\<lambda>w. prefix w (x # xs)) ws = t # rest" ..
  ultimately show ?thesis
    using Some assms
    by (simp add: rmatch_alternate [OF assms(1,3,4)] del: find.simps take.simps drop.simps)
qed

lemma search_scan:
  assumes "ws \<noteq> []" "[] \<notin> set ws" "\<forall>w \<in> set ws. valid_utf8 w"
  shows "valid_utf8 s \<or> (\<forall>w \<in> set ws. 65533 \<notin> set w) \<Longrightarrow>
         (search (alternate (map literal ws)) pre s = None \<longrightarrow> spec_highlight dec ws s = s) \<and>
         (\<forall>pre' t post. search (alternate (map literal ws)) pre s = Some (pre', t, post) \<longrightarrow>
            (\<exists>u. pre' = pre @ u \<and> s = u @ t @ post \<and> t \<noteq> [] \<and>
                 spec_highlight dec ws s = u @ dec t @ spec_highlight dec ws post))"
proof (induction s arbitrary: pre)
  case Nil
  show ?case by (simp add: search_alternate_Nil [OF assms] del: search.simps)
next
  case (Cons x xs)
  note ok = Cons.prems
  from ok have ok': "valid_utf8 xs \<or> (\<forall>w \<in> set ws. 65533 \<notin> set w)"
    using valid_utf8_Cons by blast
  show ?case
  proof (cases "find (\<lambda>t. t \<noteq> [] \<and> prefix t (x # xs)) ws")
    case None
    have s: "search (alternate (map literal ws)) pre (x # xs)
        = search (alternate (map literal ws)) (pre @ [x]) xs"
      by (simp add: search_alternate_Cons [OF assms ok] None del: search.simps)
    have h: "spec_highlight dec ws (x # xs) = x # spec_highlight dec ws xs"
      by (simp add: None)
    show ?thesis
      unfolding s h using Cons.IH [OF ok', of "pre @ [x]"]
      by (auto intro: exI [of _ "x # u" for u])
  next
    case (Some t)
    from find_prefix [OF Some] obtain r where r: "x # xs = t @ r" and t: "t \<noteq> []"
      by (auto simp: prefix_def)
    have s: "search (alternate (map literal ws)) pre (x # xs)
        = Some (pre, t, drop (length t) (x # xs))"
      by (simp add: search_alternate_Cons [OF assms ok] Some del: search.simps)
    have h: "spec_highlight dec ws (x # xs) = dec t @ spec_highlight dec ws (drop (length t) (x # xs))"
      by (simp add: Some)
    show ?thesis
      unfolding s h using t r by simp
  qed
qed

lemma replaceAll_scan:
  assumes "ws \<noteq> []" "[] \<notin> set ws" "\<forall>w \<in> set ws. valid_utf8 w"
    and ok: "valid_utf8 src \<or> (\<forall>w \<in> set ws. 65533 \<notin> set w)"
  shows "p \<le> length src \<Longrightarrow>
         replaceAll (alternate (map literal ws)) src dec p p buf =
           buf @ spec_highlight dec ws (drop p src)"
proof (induction "length src - p" arbitrary: p buf rule: less_induct)
  case less
  let ?re = "alternate (map literal ws)"
  from ok have okp: "valid_utf8 (drop p src) \<or> (\<forall>w \<in> set ws. 65533 \<notin> set w)"
    using valid_utf8_drop by blast
  note scan = search_scan [OF assms(1-3) okp, of "take p src" dec]
  show ?case
  proof (cases "search ?re (take p src) (drop p src)")
    case None
    with scan less.prems
    show ?thesis by (simp add: replaceAll.simps [of _ _ _ p p])
  next
    case (Some r)
    obtain pre' t post where r: "r = (pre', t, post)" by (cases r)
    from scan Some r
    obtain u where pre': "pre' = take p src @ u" and d: "drop p src = u @ t @ post"
      and t: "t \<noteq> []"
      and h: "spec_highlight dec ws (drop p src) = u @ dec t @ spec_highlight dec ws post"
      by blast
    let ?a0 = "p + length u"
    let ?a1 = "?a0 + length t"
    have src: "src = take p src @ u @ t @ post"
      using d by (metis append_take_drop_id)
    have len: "length src = p + length u + length t + length post"
      using less.prems d by (metis add.assoc length_append length_drop le_add_diff_inverse)
    have a0: "length pre' = ?a0" using pre' less.prems by simp
    have post: "drop ?a1 src = post"
      using d by (metis append_eq_conv_conj drop_drop add.commute append.assoc length_append)
    have tk: "take (?a0 - p) (drop p src) = u" using d by simp
    have lt: "length t > 0" using t by simp
    have rec: "replaceAll ?re src dec ?a1 ?a1 (buf @ u @ dec t)
        = (buf @ u @ dec t) @ spec_highlight dec ws (drop ?a1 src)"
      using len lt by (intro less.hyps) simp_all
    have "replaceAll ?re src dec p p buf = replaceAll ?re src dec ?a1 ?a1 (buf @ u @ dec t)"
      using less.prems Some r a0 tk lt len
      by (subst replaceAll.simps) (simp add: Let_def del: search.simps)
    with rec post h show ?thesis by simp
  qed
qed


lemma fields_from_nonempty: "[] \<notin> set (fields_from s cur)"
  by (induction s cur rule: fields_from.induct) auto

lemma Fields_nonempty: "[] \<notin> set (Fields s)"
  by (simp add: Fields_def fields_from_nonempty)

lemma fields_from_units:
  "\<Union> (set ` set (fields_from s cur)) = set cur \<union> {x \<in> set s. \<not> IsSpace x}"
  by (induction s cur rule: fields_from.induct) auto

lemma Fields_units: "\<Union> (set ` set (Fields s)) = {x \<in> set s. \<not> IsSpace x}"
  by (simp add: Fields_def fields_from_units)

lemma Fields_valid: "valid_utf8 keyword \<Longrightarrow> \<forall>w \<in> set (Fields keyword). valid_utf8 w"
proof
  fix w
  assume v: "valid_utf8 keyword" and w: "w \<in> set (Fields keyword)"
  have "set w \<subseteq> \<Union> (set ` set (Fields keyword))" using w by blast
  then have "set w \<subseteq> set keyword" by (auto simp: Fields_units)
  with v show "valid_utf8 w" by (auto simp: valid_utf8_def list_all_iff)
qed

lemma Fields_invalid:
  assumes "\<not> valid_utf8 keyword"
  shows "\<exists>w \<in> set (Fields keyword). \<not> valid_utf8 w"
proof -
  from assms obtain x where x: "x \<in> set keyword" "\<not> valid_rune x"
    by (auto simp: valid_utf8_def list_all_iff)
  then have "\<not> IsSpace x" using IsSpace_valid by blast
  with x have "x \<in> \<Union> (set ` set (Fields keyword))" by (simp add: Fields_units)
  then obtain w where "w \<in> set (Fields keyword)" "x \<in> set w" by blast
  with x show ?thesis by (auto simp: valid_utf8_def list_all_iff)
qed

lemma Fields_subset: "w \<in> set (Fields keyword) \<Longrightarrow> set w \<subseteq> set keyword"
  using Fields_units [of keyword] by blast

lemma highlightWords_scan:
  assumes "Fields keyword \<noteq> []" "valid_utf8 keyword"
    and "valid_utf8 message \<or> 65533 \<notin> set keyword"
  shows "highlightWords dec message keyword = Inr (spec_highlight dec (Fields keyword) message)"
proof -
  from assms(3) have "valid_utf8 message \<or> (\<forall>w \<in> set (Fields keyword). 65533 \<notin> set w)"
    using Fields_subset by blast
  from replaceAll_scan [OF assms(1) Fields_nonempty Fields_valid [OF assms(2)] this,
      of 0 dec "[]"]
  show ?thesis
    using assms(1,2)
    by (simp add: highlightWords_def Let_def MustCompile_quoted Fields_valid
        ReplaceAllStringFunc_def)
qed

lemma highlightWords_invalid:
  "\<not> valid_utf8 keyword \<Longrightarrow> highlightWords dec message keyword = Inl InvalidUTF8"
  by (simp add: highlightWords_def Let_def MustCompile_invalid Fields_invalid)

lemma spec_highlight_plain: "spec_highlight (\<lambda>s. s) ws s = s"
proof (induction "\<lambda>s::gostring. s" ws s rule: spec_highlight.induct)
  case (1 ws)
  show ?case by simp
next
  case (2 ws x xs)
  show ?case
  proof (cases "find (\<lambda>t. t \<noteq> [] \<and> prefix t (x # xs)) ws")
    case None
    with 2 show ?thesis by simp
  next
    case (Some t)
    from find_prefix [OF Some] have "t @ drop (length t) (x # xs) = x # xs"
      by (auto simp: prefix_def)
    moreover have "spec_highlight (\<lambda>s. s) ws (x # xs)
        = t @ spec_highlight (\<lambda>s. s) ws (drop (length t) (x # xs))"
      by (simp add: Some)
    ultimately show ?thesis
      using 2(2) [OF Some] by simp
  qed
qed

lemma spec_highlight_no_match:
  "\<forall>t \<in> set ws. t \<noteq> [] \<longrightarrow> \<not> sublist t s \<Longrightarrow> spec_highlight dec ws s = s"
proof (induction s)
  case Nil
  show ?case by simp
next
  case (Cons x xs)
  then have "find (\<lambda>t. t \<noteq> [] \<and> prefix t (x # xs)) ws = None"
    by (auto simp: find_None_iff dest: prefix_imp_sublist)
  moreover from Cons.prems have "\<forall>t \<in> set ws. t \<noteq> [] \<longrightarrow> \<not> sublist t xs"
    by (auto simp: sublist_Cons_right)
  ultimately show ?case using Cons.IH by simp
qed

text \<open>
  C5, as amended. For a keyword that is valid UTF-8 and has at least one term, and a
  message that is valid UTF-8 or is searched for a keyword without the rune \<^verbatim>\<open>U+FFFD\<close>,
  the highlighter compiles the quoted terms and returns the message in which exactly
  the occurrences that the scan of the specification finds are decorated: leftmost,
  first term first, not overlapping, each term taken literally and rune for rune.
  Without the decoration the result is the message, so the text is unchanged; and when
  no term occurs in the message, the result is the message. For a keyword that is not
  valid UTF-8 the pattern does not compile and the highlighter panics.
\<close>

theorem highlightWords_decorates:
  "(valid_utf8 keyword \<and> (valid_utf8 message \<or> 65533 \<notin> set keyword) \<and> Fields keyword \<noteq> [] \<longrightarrow>
      highlightWords dec message keyword = Inr (spec_highlight dec (Fields keyword) message) \<and>
      highlightWords (\<lambda>s. s) message keyword = Inr message \<and>
      ((\<forall>t \<in> set (Fields keyword). \<not> sublist t message) \<longrightarrow>
         highlightWords dec message keyword = Inr message)) \<and>
   (\<not> valid_utf8 keyword \<longrightarrow> highlightWords dec message keyword = Inl InvalidUTF8)"
  by (auto simp: highlightWords_scan highlightWords_invalid spec_highlight_plain
      spec_highlight_no_match)

theorem highlightWords_decorates_witness:
  "valid_utf8 (str ''fix  parser a.b'') \<and> valid_utf8 (str ''fix bug in parser a.b axb'') \<and>
   valid_utf8 (str ''merge'') \<and>
   Fields (str ''fix  parser a.b'') = [str ''fix'', str ''parser'', str ''a.b''] \<and>
   highlightWords (\<lambda>s. str ''<'' @ s @ str ''>'') (str ''fix bug in parser a.b axb'') (str ''fix  parser a.b'')
     = Inr (str ''<fix> bug in <parser> <a.b> axb'') \<and>
   highlightWords (\<lambda>s. s) (str ''fix bug in parser a.b axb'') (str ''fix  parser a.b'')
     = Inr (str ''fix bug in parser a.b axb'') \<and>
   list_all (\<lambda>t. \<not> sublist t (str ''merge'')) (Fields (str ''fix  parser a.b'')) \<and>
   highlightWords (\<lambda>s. str ''<'' @ s @ str ''>'') (str ''merge'') (str ''fix  parser a.b'')
     = Inr (str ''merge'') \<and>
   \<not> valid_utf8 (str ''fix '' @ [bad_byte 255]) \<and>
   highlightWords (\<lambda>s. str ''<'' @ s @ str ''>'') (str ''merge'') (str ''fix '' @ [bad_byte 255])
     = Inl InvalidUTF8"
proof -
  have f: "Fields (str ''fix  parser a.b'') = [str ''fix'', str ''parser'', str ''a.b'']"
    by (simp add: Fields_def str_def IsSpace_def)
  have n: "list_all (\<lambda>t. \<not> sublist t (str ''merge'')) [str ''fix'', str ''parser'', str ''a.b'']"
    by (simp add: str_def sublist_code)
  have v: "valid_utf8 (str ''fix  parser a.b'')" "valid_utf8 (str ''fix bug in parser a.b axb'')"
    "valid_utf8 (str ''merge'')" "\<not> valid_utf8 (str ''fix '' @ [bad_byte 255])"
    by (simp_all add: valid_utf8_def valid_rune_def bad_byte_def str_def)
  show ?thesis
    using n v
      highlightWords_decorates [of "str ''fix  parser a.b''" "str ''fix bug in parser a.b axb''"
        "\<lambda>s. str ''<'' @ s @ str ''>''"]
      highlightWords_decorates [of "str ''fix  parser a.b''" "str ''merge''"
        "\<lambda>s. str ''<'' @ s @ str ''>''"]
      highlightWords_decorates [of "str ''fix '' @ [bad_byte 255]" "str ''merge''"
        "\<lambda>s. str ''<'' @ s @ str ''>''"]
    unfolding f by (simp add: str_def list_all_iff)
qed

text \<open>
  C5, the claim as stated. The keyword of the one term that is the byte \<^verbatim>\<open>0xFF\<close> makes the
  highlighter panic on every message, here on \<^verbatim>\<open>fix bug\<close>. And for the keyword of the
  two terms \<^verbatim>\<open>x\<close> and \<^verbatim>\<open>U+FFFD\<close>, in a message that is the byte \<^verbatim>\<open>0xFF\<close> no term occurs, and
  the byte is decorated.
\<close>

theorem highlightWords_invalid_keyword:
  "Fields [bad_byte 255] = [[bad_byte 255]] \<and>
   highlightWords (\<lambda>s. s) (str ''fix bug'') [bad_byte 255] = Inl InvalidUTF8 \<and>
   Fields (str ''x '' @ [65533]) = [str ''x'', [65533]] \<and>
   \<not> sublist (str ''x'') [bad_byte 255] \<and> \<not> sublist [65533] [bad_byte 255] \<and>
   highlightWords (\<lambda>s. str ''<'' @ s @ str ''>'') [bad_byte 255] (str ''x '' @ [65533])
     = Inr (str ''<'' @ [bad_byte 255] @ str ''>'')"
  by (simp add: highlightWords_def Fields_def IsSpace_def QuoteMeta_def special_def MustCompile_def
      ReplaceAllStringFunc_def replaceAll.simps literal_def decode_def valid_rune_def
      bad_byte_def sublist_code str_def)

section \<open>The renderer returns or panics\<close>

text \<open>
  The pattern built from a keyword that is valid UTF-8 compiles, so \<open>highlightWords\<close>
  returns and no panic ends the loop over the commits of \<open>showResult\<close>. With a keyword
  that is not valid UTF-8 the first row panics, after the separator was written.
\<close>

lemma highlightWords_returns:
  "valid_utf8 keyword \<Longrightarrow> \<exists>h. highlightWords dec message keyword = Inr h"
proof (cases "Fields keyword = []")
  case True
  then show ?thesis by (simp add: highlightWords_def MustCompile_def)
next
  case False
  assume "valid_utf8 keyword"
  with False show ?thesis
    by (simp add: highlightWords_def Let_def MustCompile_quoted Fields_valid)
qed

lemma show_rows_returns: "\<forall>c. \<exists>l. line c = Inr l \<Longrightarrow> snd (show_rows line cs) = None"
proof (induction cs)
  case Nil
  show ?case by simp
next
  case (Cons c cs)
  from Cons.prems obtain l where "line c = Inr l" by blast
  with Cons show ?case by (simp add: split_beta)
qed

lemma showResult_returns:
  assumes "valid_utf8 keyword"
  shows "snd (showResult wide pal result url keyword page) = None"
proof -
  have "\<forall>c. \<exists>l. (case highlightWords (YellowString pal) (Message c) keyword of
                     Inl e \<Rightarrow> Inl e
                   | Inr h \<Rightarrow> Inr (f c h)) = Inr l" for f :: "commit \<Rightarrow> gostring \<Rightarrow> gostring"
  proof
    fix c :: commit
    from highlightWords_returns [OF assms, of "YellowString pal" "Message c"]
    obtain h where "highlightWords (YellowString pal) (Message c) keyword = Inr h" ..
    then show "\<exists>l. (case highlightWords (YellowString pal) (Message c) keyword of
                     Inl e \<Rightarrow> Inl e
                   | Inr h \<Rightarrow> Inr (f c h)) = Inr l" by simp
  qed
  from show_rows_returns [OF this] show ?thesis
    by (simp add: showResult_def Let_def split_beta)
qed

lemma showResult_panics:
  assumes "\<not> valid_utf8 keyword" and "Commits result \<noteq> []"
  shows "\<exists>summary urlLine header separator.
           showResult wide pal result url keyword page =
             ([summary, urlLine, header, separator], Some InvalidUTF8)"
proof -
  from assms(2) obtain c cs where "Commits result = c # cs"
    by (cases "Commits result") auto
  then show ?thesis
    by (simp add: showResult_def Let_def highlightWords_invalid [OF assms(1)])
qed

end
